theory Spec2Isabelle
  imports Complex_Main "HOL-Library.Log_Nat"
begin

section \<open>Errors\<close>

text \<open>
  The exceptions the source can raise: \<open>OverflowError\<close> (an int too large for a float, or
  \<open>int()\<close> of an infinity), \<open>ValueError\<close> (\<open>int()\<close> of a NaN), \<open>IndexError\<close> (a
  coordinate outside the pixel map) and \<open>KeyError\<close> (a name that is no member of the enum, a
  key missing from a dict). A computation that may raise returns \<open>error + 'a\<close>.
\<close>

datatype error = OverflowError | ValueError | IndexError | KeyError

definition then_do :: "error + 'a \<Rightarrow> ('a \<Rightarrow> error + 'b) \<Rightarrow> error + 'b" where
  "then_do m k = (case m of Inl e \<Rightarrow> Inl e | Inr v \<Rightarrow> k v)"

section \<open>Python floats\<close>

text \<open>
  A Python float is an IEEE 754 binary64 number: 53 significant bits, exponents of the
  least significant bit from \<open>-1074\<close> up, every operation rounded to the nearest
  representable value with ties to the even significand. A finite float is modelled by the
  rational number it denotes (the sign of a zero is not kept: the source never divides by a
  float and \<open>int(-0.0)\<close> is \<open>0\<close>).
\<close>

definition floor_log2 :: "rat \<Rightarrow> int" where
  "floor_log2 x =
     (let (p, q) = quotient_of x; k = bitlen p - bitlen q
      in if 2 powi k \<le> x then k else k - 1)"

definition round_half_even :: "rat \<Rightarrow> int" where
  "round_half_even y =
     (let n = \<lfloor>y\<rfloor>; d = y - of_int n
      in if d < 1 / 2 then n else if 1 / 2 < d then n + 1 else if even n then n else n + 1)"

definition round_binary64 :: "rat \<Rightarrow> rat" where
  "round_binary64 x =
     (if x = 0 then 0
      else let e = max (floor_log2 \<bar>x\<bar> - 52) (- 1074)
           in of_int (round_half_even (x / 2 powi e)) * 2 powi e)"

datatype pyfloat = Finite rat | PosInf | NegInf | NaN

definition to_float :: "rat \<Rightarrow> pyfloat" where
  "to_float x =
     (let y = round_binary64 x
      in if 2 ^ 1024 \<le> y then PosInf else if y \<le> - (2 ^ 1024) then NegInf else Finite y)"

text \<open>A decimal literal of the source, such as \<open>0.299\<close>, denotes the float nearest to it.\<close>

definition float_literal :: "rat \<Rightarrow> pyfloat" where
  "float_literal q = to_float q"

text \<open>An int operand of a float operation is converted first; too large an int raises.\<close>

definition float_of_int :: "int \<Rightarrow> error + pyfloat" where
  "float_of_int n =
     (case to_float (of_int n) of Finite y \<Rightarrow> Inr (Finite y) | _ \<Rightarrow> Inl OverflowError)"

fun float_mul :: "pyfloat \<Rightarrow> pyfloat \<Rightarrow> pyfloat" where
  "float_mul (Finite a) (Finite b) = to_float (a * b)"
| "float_mul NaN _ = NaN"
| "float_mul _ NaN = NaN"
| "float_mul (Finite a) PosInf = (if a = 0 then NaN else if 0 < a then PosInf else NegInf)"
| "float_mul (Finite a) NegInf = (if a = 0 then NaN else if 0 < a then NegInf else PosInf)"
| "float_mul PosInf (Finite b) = (if b = 0 then NaN else if 0 < b then PosInf else NegInf)"
| "float_mul NegInf (Finite b) = (if b = 0 then NaN else if 0 < b then NegInf else PosInf)"
| "float_mul PosInf PosInf = PosInf"
| "float_mul PosInf NegInf = NegInf"
| "float_mul NegInf PosInf = NegInf"
| "float_mul NegInf NegInf = PosInf"

fun float_add :: "pyfloat \<Rightarrow> pyfloat \<Rightarrow> pyfloat" where
  "float_add (Finite a) (Finite b) = to_float (a + b)"
| "float_add NaN _ = NaN"
| "float_add _ NaN = NaN"
| "float_add PosInf NegInf = NaN"
| "float_add NegInf PosInf = NaN"
| "float_add PosInf _ = PosInf"
| "float_add NegInf _ = NegInf"
| "float_add (Finite a) PosInf = PosInf"
| "float_add (Finite a) NegInf = NegInf"

text \<open>\<open>literal * n\<close> with an int \<open>n\<close>, as in \<open>0.299 * r\<close>.\<close>

definition mul_float_int :: "pyfloat \<Rightarrow> int \<Rightarrow> error + pyfloat" where
  "mul_float_int c n = then_do (float_of_int n) (\<lambda>x. Inr (float_mul c x))"

text \<open>\<open>int(x)\<close> of a float truncates toward zero; an infinity or a NaN raises.\<close>

definition int_of_float :: "pyfloat \<Rightarrow> error + int" where
  "int_of_float x =
     (case x of
        Finite v \<Rightarrow> Inr (if 0 \<le> v then \<lfloor>v\<rfloor> else \<lceil>v\<rceil>)
      | PosInf \<Rightarrow> Inl OverflowError
      | NegInf \<Rightarrow> Inl OverflowError
      | NaN \<Rightarrow> Inl ValueError)"

section \<open>The conversion functions\<close>

type_synonym pixel = "int \<times> int \<times> int"

text \<open>
  The four weighted sums of the source have one shape, \<open>wr * r + wg * g + wb * b\<close> with
  float literals and int channels, evaluated left to right: each product converts its int
  operand, the two additions round again.
\<close>

definition weighted :: "rat \<Rightarrow> rat \<Rightarrow> rat \<Rightarrow> int \<Rightarrow> int \<Rightarrow> int \<Rightarrow> error + pyfloat" where
  "weighted wr wg wb r g b =
     then_do (mul_float_int (float_literal wr) r) (\<lambda>t1.
     then_do (mul_float_int (float_literal wg) g) (\<lambda>t2.
     then_do (mul_float_int (float_literal wb) b) (\<lambda>t3.
       Inr (float_add (float_add t1 t2) t3))))"

text \<open>
  The float that \<open>weighted\<close> returns when no step overflows, written as one expression
  of roundings.
\<close>

definition weighted_value :: "rat \<Rightarrow> rat \<Rightarrow> rat \<Rightarrow> int \<Rightarrow> int \<Rightarrow> int \<Rightarrow> rat" where
  "weighted_value wr wg wb r g b =
     round_binary64
       (round_binary64
          (round_binary64 (round_binary64 wr * round_binary64 (of_int r))
           + round_binary64 (round_binary64 wg * round_binary64 (of_int g)))
        + round_binary64 (round_binary64 wb * round_binary64 (of_int b)))"

definition grayscale_conversion_func :: "int \<Rightarrow> int \<Rightarrow> int \<Rightarrow> error + pixel" where
  "grayscale_conversion_func r g b =
     then_do (weighted (299 / 1000) (587 / 1000) (114 / 1000) r g b) (\<lambda>grayscale.
     then_do (int_of_float grayscale) (\<lambda>v1.
     then_do (int_of_float grayscale) (\<lambda>v2.
     then_do (int_of_float grayscale) (\<lambda>v3. Inr (v1, v2, v3)))))"

definition sepia_conversion_func :: "int \<Rightarrow> int \<Rightarrow> int \<Rightarrow> error + pixel" where
  "sepia_conversion_func r g b =
     then_do (weighted (393 / 1000) (769 / 1000) (189 / 1000) r g b) (\<lambda>sepia_red.
     then_do (weighted (349 / 1000) (686 / 1000) (168 / 1000) r g b) (\<lambda>sepia_green.
     then_do (weighted (272 / 1000) (534 / 1000) (131 / 1000) r g b) (\<lambda>sepia_blue.
     then_do (int_of_float sepia_red) (\<lambda>v1.
     then_do (int_of_float sepia_green) (\<lambda>v2.
     then_do (int_of_float sepia_blue) (\<lambda>v3. Inr (v1, v2, v3)))))))"

text \<open>On an int, \<open>int(x)\<close> is \<open>x\<close>, and int addition is exact and unbounded.\<close>

definition warmer_conversion_func :: "int \<Rightarrow> int \<Rightarrow> int \<Rightarrow> error + pixel" where
  "warmer_conversion_func r g b =
     (let warmer_red = r + 15; warmer_blue = b - 15 in Inr (warmer_red, g, warmer_blue))"

definition cooler_conversion_func :: "int \<Rightarrow> int \<Rightarrow> int \<Rightarrow> error + pixel" where
  "cooler_conversion_func r g b =
     (let cooler_red = r - 15; cooler_blue = b + 15 in Inr (cooler_red, g, cooler_blue))"

section \<open>The pixel map\<close>

text \<open>
  Modelled from the spec: the pixel map is the object the image library hands out
  (\<open>working_image.load()\<close>); its class is not part of the source, which only reads
  \<open>pixel_map[i, j]\<close> and assigns to it. Following the collaborator contract of the spec
  (\<open>buffer.get(x,y) -> Pixel\<close>, \<open>buffer.set(x,y,Pixel)\<close>) it is a store from
  coordinates to pixels that returns what was last written and raises \<open>IndexError\<close>
  outside its coordinates. The store keeps the list of its accesses, so that reads and
  writes can be counted and ordered.
\<close>

datatype access = Read "int \<times> int" | Write "int \<times> int" pixel

record pixel_map =
  pixels :: "int \<times> int \<rightharpoonup> pixel"
  accesses :: "access list"

definition getitem :: "pixel_map \<Rightarrow> int \<times> int \<Rightarrow> error + pixel \<times> pixel_map" where
  "getitem pm xy =
     (case pixels pm xy of
        None \<Rightarrow> Inl IndexError
      | Some p \<Rightarrow> Inr (p, pm\<lparr>accesses := accesses pm @ [Read xy]\<rparr>))"

definition setitem :: "pixel_map \<Rightarrow> int \<times> int \<Rightarrow> pixel \<Rightarrow> error + pixel_map" where
  "setitem pm xy p =
     (case pixels pm xy of
        None \<Rightarrow> Inl IndexError
      | Some _ \<Rightarrow> Inr (pm\<lparr>pixels := (pixels pm)(xy \<mapsto> p), accesses := accesses pm @ [Write xy p]\<rparr>))"

section \<open>The transformer\<close>

text \<open>\<open>range(n)\<close> is \<open>0, \<dots>, n - 1\<close>, empty when \<open>n \<le> 0\<close>.\<close>

definition range_int :: "int \<Rightarrow> int list" where
  "range_int n = [0..n - 1]"

text \<open>A \<open>for\<close> loop over a list; an exception raised by the body ends the loop.\<close>

fun for_in :: "'a list \<Rightarrow> ('a \<Rightarrow> 's \<Rightarrow> error + 's) \<Rightarrow> 's \<Rightarrow> error + 's" where
  "for_in [] body s = Inr s"
| "for_in (x # xs) body s = then_do (body x s) (for_in xs body)"

text \<open>
  The body of the inner loop: read the pixel at \<open>(i, j)\<close>, unpack it, convert it, write
  the result back to \<open>(i, j)\<close>.
\<close>

definition transform_pixel ::
  "(int \<Rightarrow> int \<Rightarrow> int \<Rightarrow> error + pixel) \<Rightarrow> int \<times> int \<Rightarrow> pixel_map \<Rightarrow> error + pixel_map" where
  "transform_pixel conversion_function ij pm =
     then_do (getitem pm ij) (\<lambda>((r, g, b), pm1).
     then_do (conversion_function r g b) (\<lambda>p. setitem pm1 ij p))"

definition transform_pixels ::
  "pixel_map \<Rightarrow> int \<Rightarrow> int \<Rightarrow> (int \<Rightarrow> int \<Rightarrow> int \<Rightarrow> error + pixel) \<Rightarrow> error + pixel_map" where
  "transform_pixels pm width height conversion_function =
     for_in (range_int width) (\<lambda>i.
       for_in (range_int height) (\<lambda>j. transform_pixel conversion_function (i, j))) pm"

definition convert_to_grayscale :: "pixel_map \<Rightarrow> int \<Rightarrow> int \<Rightarrow> error + pixel_map" where
  "convert_to_grayscale pm width height = transform_pixels pm width height grayscale_conversion_func"

definition convert_to_sepia :: "pixel_map \<Rightarrow> int \<Rightarrow> int \<Rightarrow> error + pixel_map" where
  "convert_to_sepia pm width height = transform_pixels pm width height sepia_conversion_func"

definition convert_to_warmer :: "pixel_map \<Rightarrow> int \<Rightarrow> int \<Rightarrow> error + pixel_map" where
  "convert_to_warmer pm width height = transform_pixels pm width height warmer_conversion_func"

definition convert_to_cooler :: "pixel_map \<Rightarrow> int \<Rightarrow> int \<Rightarrow> error + pixel_map" where
  "convert_to_cooler pm width height = transform_pixels pm width height cooler_conversion_func"

section \<open>Filter selection\<close>

datatype Filter = GRAYSCALE | SEPIA | WARMER | COOLER

text \<open>
  \<open>str.upper()\<close> on the ASCII letters; every other character is left as it is. A
  \<open>string\<close> is a list of 8-bit characters, so the case mappings of Unicode beyond ASCII are
  outside this model.
\<close>

definition upper_char :: "char \<Rightarrow> char" where
  "upper_char c =
     (let n = (of_char c :: nat) in if 97 \<le> n \<and> n \<le> 122 then char_of (n - 32) else c)"

definition upper :: "string \<Rightarrow> string" where
  "upper s = map upper_char s"

text \<open>The members of the enum by name, as \<open>Filter[enum_name]\<close> looks them up.\<close>

definition Filter_members :: "(string \<times> Filter) list" where
  "Filter_members =
     [(''GRAYSCALE'', GRAYSCALE), (''SEPIA'', SEPIA), (''WARMER'', WARMER), (''COOLER'', COOLER)]"

definition filter_from_string :: "string \<Rightarrow> error + Filter" where
  "filter_from_string filter_name =
     (let enum_name = upper filter_name
      in case map_of Filter_members enum_name of None \<Rightarrow> Inl KeyError | Some f \<Rightarrow> Inr f)"

definition filter_map :: "(Filter \<times> (pixel_map \<Rightarrow> int \<Rightarrow> int \<Rightarrow> error + pixel_map)) list" where
  "filter_map =
     [(GRAYSCALE, convert_to_grayscale), (SEPIA, convert_to_sepia),
      (WARMER, convert_to_warmer), (COOLER, convert_to_cooler)]"

definition function_for_filter ::
  "Filter \<Rightarrow> error + (pixel_map \<Rightarrow> int \<Rightarrow> int \<Rightarrow> error + pixel_map)" where
  "function_for_filter filter_name =
     (case map_of filter_map filter_name of None \<Rightarrow> Inl KeyError | Some f \<Rightarrow> Inr f)"

section \<open>Sequencing\<close>

lemma then_do_Inr [simp]: "then_do (Inr v) k = k v"
  by (simp add: then_do_def)

lemma then_do_Inl [simp]: "then_do (Inl e) k = Inl e"
  by (simp add: then_do_def)

section \<open>Rounding to a float: the error of one operation\<close>

text \<open>
  \<open>floor_log2\<close> is the exponent of the leading bit; rounding to 53 significant bits moves
  a value by at most half a unit of the last place, that is by at most \<open>\<bar>x\<bar> / 2 ^ 53\<close>
  in the normal range.
\<close>

lemma pow2_bitlen_diff:
  fixes a b :: int
  assumes "0 \<le> a" "0 \<le> b"
  shows "(2::rat) ^ nat a / 2 ^ nat b = 2 powi (a - b)"
proof -
  have "(2::rat) powi (a - b) = 2 powi a / 2 powi b" by (simp add: power_int_diff)
  moreover have "(2::rat) powi a = 2 ^ nat a" "(2::rat) powi b = 2 ^ nat b"
    using assms by (simp_all add: power_int_def)
  ultimately show ?thesis by simp
qed

lemma floor_log2_bounds:
  assumes "0 < x"
  shows "2 powi (floor_log2 x) \<le> x \<and> x < 2 powi (floor_log2 x + 1)"
proof -
  obtain p q where pq: "quotient_of x = (p, q)" by (cases "quotient_of x")
  have q0: "0 < q" using pq by (rule quotient_of_denom_pos)
  have xe: "x = of_int p / of_int q" using pq by (rule quotient_of_div)
  have p0: "0 < p" using assms q0 xe by (simp add: zero_less_divide_iff)
  define bp where "bp = bitlen p"
  define bq where "bq = bitlen q"
  have bp: "2 ^ nat (bp - 1) \<le> p" "p < 2 ^ nat bp" and bq: "2 ^ nat (bq - 1) \<le> q" "q < 2 ^ nat bq"
    using bitlen_bounds [OF p0] bitlen_bounds [OF q0] by (simp_all add: bp_def bq_def)
  have bp1: "1 \<le> bp" and bq1: "1 \<le> bq"
    using p0 q0 by (simp_all add: bp_def bq_def bitlen_alt_def)
  have P1: "(2::rat) ^ nat (bp - 1) \<le> of_int p" and P2: "of_int p < (2::rat) ^ nat bp"
   and Q1: "(2::rat) ^ nat (bq - 1) \<le> of_int q" and Q2: "of_int q < (2::rat) ^ nat bq"
    using bp bq by (metis of_int_le_iff of_int_numeral of_int_power, metis of_int_less_iff of_int_numeral of_int_power,
       metis of_int_le_iff of_int_numeral of_int_power, metis of_int_less_iff of_int_numeral of_int_power)
  have qpos: "(0::rat) < of_int q" and ppos: "(0::rat) < of_int p" using q0 p0 by simp_all
  have up: "x < 2 powi (bp - bq + 1)"
  proof -
    have "x < 2 ^ nat bp / of_int q" unfolding xe using P2 qpos by (simp add: divide_strict_right_mono)
    also have "\<dots> \<le> 2 ^ nat bp / 2 ^ nat (bq - 1)" using Q1 by (simp add: frac_le)
    also have "\<dots> = 2 powi (bp - (bq - 1))" using bp1 bq1 by (intro pow2_bitlen_diff) simp_all
    finally show ?thesis by (simp add: algebra_simps)
  qed
  have lo: "2 powi (bp - bq - 1) \<le> x"
  proof -
    have "2 powi (bp - 1 - bq) = (2::rat) ^ nat (bp - 1) / 2 ^ nat bq"
      using bp1 bq1 by (intro pow2_bitlen_diff [symmetric]) simp_all
    also have "\<dots> \<le> of_int p / 2 ^ nat bq" using P1 by (simp add: divide_right_mono)
    also have "\<dots> \<le> of_int p / of_int q" using Q2 qpos ppos by (simp add: frac_le)
    finally show ?thesis by (simp add: xe algebra_simps)
  qed
  show ?thesis
  proof (cases "2 powi (bp - bq) \<le> x")
    case True
    then have "floor_log2 x = bp - bq" by (simp add: floor_log2_def pq bp_def bq_def)
    with True up show ?thesis by simp
  next
    case False
    then have "floor_log2 x = bp - bq - 1" by (simp add: floor_log2_def pq bp_def bq_def)
    with False lo show ?thesis by simp
  qed
qed

lemma round_half_even_err: "\<bar>of_int (round_half_even y) - y\<bar> \<le> 1 / 2"
proof -
  have "of_int \<lfloor>y\<rfloor> \<le> y" "y < of_int \<lfloor>y\<rfloor> + 1" by linarith+
  then show ?thesis
    unfolding round_half_even_def Let_def by (simp add: abs_le_iff)
qed


lemma round_binary64_zero: "round_binary64 0 = 0"
  by (simp add: round_binary64_def)

lemma round_binary64_err:
  assumes big: "2 powi (- 1022) \<le> \<bar>x\<bar>"
  shows "\<bar>round_binary64 x - x\<bar> \<le> \<bar>x\<bar> / 2 ^ 53"
proof -
  have "(0::rat) < 2 powi (- 1022)" by simp
  with big have pos: "0 < \<bar>x\<bar>" by linarith
  then have x0: "x \<noteq> 0" by simp
  define L where "L = floor_log2 \<bar>x\<bar>"
  have L: "2 powi L \<le> \<bar>x\<bar>" "\<bar>x\<bar> < 2 powi (L + 1)"
    using floor_log2_bounds [OF pos] by (simp_all add: L_def)
  have "(2::rat) powi (- 1022) < 2 powi (L + 1)" using big L(2) by linarith
  then have Lge: "- 1022 < L + 1"
    using power_int_increasing [of "L + 1" "- 1022" "2::rat"] by (cases "- 1022 < L + 1") simp_all
  define e where "e = L - 52"
  have e: "max (floor_log2 \<bar>x\<bar> - 52) (- 1074) = e" using Lge by (simp add: e_def L_def)
  define s :: rat where "s = 2 powi e"
  have spos: "0 < s" by (simp add: s_def)
  have rb: "round_binary64 x = of_int (round_half_even (x / s)) * s"
    using x0 by (simp add: round_binary64_def e s_def Let_def)
  have "round_binary64 x - x = (of_int (round_half_even (x / s)) - x / s) * s"
    using spos by (simp add: rb algebra_simps)
  then have "\<bar>round_binary64 x - x\<bar> = \<bar>of_int (round_half_even (x / s)) - x / s\<bar> * s"
    using spos by (simp add: abs_mult)
  also have "\<dots> \<le> 1 / 2 * s"
    using round_half_even_err [of "x / s"] spos by (intro mult_right_mono) simp_all
  also have "1 / 2 * s = 2 powi L / 2 ^ 53"
  proof -
    have "(2::rat) powi e = 2 powi L / 2 powi 52" unfolding e_def by (simp add: power_int_diff)
    then show ?thesis by (simp add: s_def)
  qed
  also have "\<dots> \<le> \<bar>x\<bar> / 2 ^ 53" using L(1) by (simp add: divide_right_mono)
  finally show ?thesis .
qed


lemma round_binary64_small:
  assumes "x = 0 \<or> 1 / 64 \<le> x" and "x \<le> 1024"
  shows "\<bar>round_binary64 x - x\<bar> \<le> 1 / 2 ^ 43"
proof (cases "x = 0")
  case True
  then show ?thesis by (simp add: round_binary64_zero)
next
  case False
  with assms have x: "1 / 64 \<le> x" by simp
  have "(2::rat) powi (- 1022) \<le> 2 powi (- 6)" by (intro power_int_increasing) simp_all
  also have "\<dots> = 1 / 64" by (simp add: power_int_minus field_simps)
  finally have "2 powi (- 1022) \<le> \<bar>x\<bar>" using x by linarith
  then have "\<bar>round_binary64 x - x\<bar> \<le> \<bar>x\<bar> / 2 ^ 53" by (rule round_binary64_err)
  also have "\<dots> \<le> 1024 / 2 ^ 53" using x assms(2) by (intro divide_right_mono) simp_all
  also have "\<dots> = 1 / 2 ^ 43" by simp
  finally show ?thesis .
qed

lemma to_float_small:
  assumes "x = 0 \<or> 1 / 64 \<le> x" and "x \<le> 1024"
  shows "to_float x = Finite (round_binary64 x)"
proof -
  have "\<bar>round_binary64 x - x\<bar> \<le> 1 / 2 ^ 43" using assms by (rule round_binary64_small)
  moreover have "0 \<le> x" using assms(1) by auto
  moreover have "(1::rat) / 2 ^ 43 \<le> 1" by simp
  ultimately have "- 1 \<le> round_binary64 x" "round_binary64 x \<le> 1025"
    using assms(2) by linarith+
  moreover have "(1025::rat) < 2 ^ 1024" "- (2 ^ 1024) < (- 1 :: rat)" by simp_all
  ultimately have "\<not> 2 ^ 1024 \<le> round_binary64 x" "\<not> round_binary64 x \<le> - (2 ^ 1024)"
    by linarith+
  then show ?thesis by (simp add: to_float_def Let_def)
qed


lemma mul_float_int_small:
  assumes w: "1 / 10 \<le> w" "w \<le> 1" and r: "0 \<le> r" "r \<le> 255"
  defines "t \<equiv> round_binary64 (round_binary64 w * round_binary64 (of_int r))"
  shows "mul_float_int (float_literal w) r = Inr (Finite t)
           \<and> \<bar>t - w * of_int r\<bar> \<le> 1 / 2 ^ 34 \<and> (t = 0 \<or> 1 / 32 \<le> t)"
proof -
  define eps :: rat where "eps = 1 / 2 ^ 43"
  have eps: "0 < eps" "eps \<le> 1 / 1000000" "512 * eps = 1 / 2 ^ 34" by (simp_all add: eps_def)
  define c where "c = round_binary64 w"
  define x where "x = round_binary64 (of_int r)"
  have wc: "w = 0 \<or> 1 / 64 \<le> w" "w \<le> 1024" using w by simp_all
  have cf: "float_literal w = Finite c"
    unfolding float_literal_def c_def using wc by (rule to_float_small)
  have ce: "\<bar>c - w\<bar> \<le> eps" unfolding c_def eps_def using wc by (rule round_binary64_small)
  have rc: "(of_int r :: rat) = 0 \<or> 1 / 64 \<le> (of_int r :: rat)" "(of_int r :: rat) \<le> 1024"
    using r by (cases "r = 0", simp_all)
  have xf: "to_float (of_int r) = Finite x" unfolding x_def using rc by (rule to_float_small)
  have xe: "\<bar>x - of_int r\<bar> \<le> eps" unfolding x_def eps_def using rc by (rule round_binary64_small)
  have m: "mul_float_int (float_literal w) r = Inr (to_float (c * x))"
    by (simp add: mul_float_int_def float_of_int_def xf cf then_do_def)
  show ?thesis
  proof (cases "r = 0")
    case True
    then have "x = 0" by (simp add: x_def round_binary64_zero)
    then have "to_float (c * x) = Finite 0"
      using to_float_small [of 0] by (simp add: round_binary64_zero)
    moreover have "t = 0" using \<open>x = 0\<close> by (simp add: t_def x_def [symmetric] round_binary64_zero)
    ultimately show ?thesis using m True by simp
  next
    case False
    with r have r1: "(1::rat) \<le> of_int r" "(of_int r :: rat) \<le> 255" by simp_all
    have cb: "w - eps \<le> c" "c \<le> w + eps" and xb: "of_int r - eps \<le> x" "x \<le> of_int r + eps"
      using ce xe by linarith+
    have "c * x \<le> (w + eps) * (of_int r + eps)"
      using cb xb w r1 eps by (intro mult_mono) linarith+
    then have up: "c * x \<le> w * of_int r + 257 * eps"
    proof -
      assume a: "c * x \<le> (w + eps) * (of_int r + eps)"
      have "w * eps \<le> 1 * eps" using w eps by (intro mult_right_mono) simp_all
      moreover have "eps * of_int r \<le> eps * 255" using r1 eps by (intro mult_left_mono) simp_all
      moreover have "eps * eps \<le> eps * 1" using eps by (intro mult_left_mono) simp_all
      ultimately show ?thesis using a by (simp add: algebra_simps)
    qed
    have "(w - eps) * (of_int r - eps) \<le> c * x"
      using cb xb w r1 eps by (intro mult_mono) linarith+
    then have lo: "w * of_int r - 256 * eps \<le> c * x"
    proof -
      assume a: "(w - eps) * (of_int r - eps) \<le> c * x"
      have "w * eps \<le> 1 * eps" using w eps by (intro mult_right_mono) simp_all
      moreover have "eps * of_int r \<le> eps * 255" using r1 eps by (intro mult_left_mono) simp_all
      moreover have "0 \<le> eps * eps" using eps by simp
      moreover have "w * of_int r - w * eps - eps * of_int r + eps * eps \<le> c * x"
        using a by (simp add: algebra_simps)
      ultimately show ?thesis by linarith
    qed
    have "1 / 10 * 1 \<le> w * of_int r" using w r1 by (intro mult_mono) simp_all
    moreover have "w * of_int r \<le> 1 * 255" using w r1 by (intro mult_mono) simp_all
    ultimately have wr: "1 / 10 \<le> w * of_int r" "w * of_int r \<le> 255" by simp_all
    have pc: "c * x = 0 \<or> 1 / 64 \<le> c * x" "c * x \<le> 1024"
      using lo up wr eps by linarith+
    have t: "t = round_binary64 (c * x)" by (simp add: t_def c_def x_def)
    have tf: "to_float (c * x) = Finite t" unfolding t using pc by (rule to_float_small)
    have te: "\<bar>t - c * x\<bar> \<le> eps" unfolding t eps_def using pc by (rule round_binary64_small)
    have "\<bar>t - w * of_int r\<bar> \<le> 512 * eps" using te lo up eps by linarith
    moreover have "1 / 32 \<le> t" using te lo wr eps by linarith
    ultimately show ?thesis using m tf eps(3) by simp
  qed
qed


lemma weighted_small:
  assumes wr: "1 / 10 \<le> wr" "wr \<le> 1" and wg: "1 / 10 \<le> wg" "wg \<le> 1"
    and wb: "1 / 10 \<le> wb" "wb \<le> 1"
    and r: "0 \<le> r" "r \<le> 255" and g: "0 \<le> g" "g \<le> 255" and b: "0 \<le> b" "b \<le> 255"
  defines "s \<equiv> weighted_value wr wg wb r g b"
  shows "weighted wr wg wb r g b = Inr (Finite s) \<and> 0 \<le> s
           \<and> \<bar>s - (wr * of_int r + wg * of_int g + wb * of_int b)\<bar> \<le> 1 / 2 ^ 32"
proof -
  define eps :: rat where "eps = 1 / 2 ^ 43"
  have eps: "0 < eps" "eps \<le> 1 / 1000000" "512 * eps = 1 / 2 ^ 34" "2048 * eps = 1 / 2 ^ 32"
    by (simp_all add: eps_def)
  define t1 where "t1 = round_binary64 (round_binary64 wr * round_binary64 (of_int r))"
  define t2 where "t2 = round_binary64 (round_binary64 wg * round_binary64 (of_int g))"
  define t3 where "t3 = round_binary64 (round_binary64 wb * round_binary64 (of_int b))"
  have t1: "mul_float_int (float_literal wr) r = Inr (Finite t1)"
      "\<bar>t1 - wr * of_int r\<bar> \<le> 512 * eps" "t1 = 0 \<or> 1 / 32 \<le> t1"
    using mul_float_int_small [OF wr r] eps(3) by (simp_all add: t1_def)
  have t2: "mul_float_int (float_literal wg) g = Inr (Finite t2)"
      "\<bar>t2 - wg * of_int g\<bar> \<le> 512 * eps" "t2 = 0 \<or> 1 / 32 \<le> t2"
    using mul_float_int_small [OF wg g] eps(3) by (simp_all add: t2_def)
  have t3: "mul_float_int (float_literal wb) b = Inr (Finite t3)"
      "\<bar>t3 - wb * of_int b\<bar> \<le> 512 * eps" "t3 = 0 \<or> 1 / 32 \<le> t3"
    using mul_float_int_small [OF wb b] eps(3) by (simp_all add: t3_def)
  have "wr * of_int r \<le> 1 * 255" using wr r by (intro mult_mono) simp_all
  moreover have "wg * of_int g \<le> 1 * 255" using wg g by (intro mult_mono) simp_all
  moreover have "wb * of_int b \<le> 1 * 255" using wb b by (intro mult_mono) simp_all
  ultimately have ub: "t1 \<le> 256" "t2 \<le> 256" "t3 \<le> 256"
    using t1(2) t2(2) t3(2) eps by linarith+
  have c1: "t1 + t2 = 0 \<or> 1 / 64 \<le> t1 + t2" "t1 + t2 \<le> 1024"
    using t1(3) t2(3) ub by auto
  define s1 where "s1 = round_binary64 (t1 + t2)"
  have f1: "to_float (t1 + t2) = Finite s1" unfolding s1_def using c1 by (rule to_float_small)
  have e1: "\<bar>s1 - (t1 + t2)\<bar> \<le> eps"
    unfolding s1_def eps_def using c1 by (rule round_binary64_small)
  have z1: "s1 = 0 \<or> 1 / 64 \<le> s1"
  proof (cases "t1 + t2 = 0")
    case True
    then show ?thesis by (simp add: s1_def round_binary64_zero)
  next
    case False
    then have "1 / 32 \<le> t1 + t2" using t1(3) t2(3) by auto
    then show ?thesis using e1 eps by linarith
  qed
  have c2: "s1 + t3 = 0 \<or> 1 / 64 \<le> s1 + t3" "s1 + t3 \<le> 1024"
    using z1 t3(3) ub e1 eps by auto
  define s2 where "s2 = round_binary64 (s1 + t3)"
  have f2: "to_float (s1 + t3) = Finite s2" unfolding s2_def using c2 by (rule to_float_small)
  have e2: "\<bar>s2 - (s1 + t3)\<bar> \<le> eps"
    unfolding s2_def eps_def using c2 by (rule round_binary64_small)
  have z2: "0 \<le> s2"
  proof (cases "s1 + t3 = 0")
    case True
    then show ?thesis by (simp add: s2_def round_binary64_zero)
  next
    case False
    then have "1 / 64 \<le> s1 + t3" using c2(1) by simp
    then show ?thesis using e2 eps by linarith
  qed
  have "weighted wr wg wb r g b = Inr (Finite s2)"
    by (simp add: weighted_def t1(1) t2(1) t3(1) then_do_def f1 f2)
  moreover have "\<bar>s2 - (wr * of_int r + wg * of_int g + wb * of_int b)\<bar> \<le> 2048 * eps"
    using t1(2) t2(2) t3(2) e1 e2 eps by linarith
  moreover have "s = s2" by (simp add: s_def weighted_value_def s2_def s1_def t1_def t2_def t3_def)
  ultimately show ?thesis using z2 eps(4) by simp
qed

lemma floor_near_thousandth:
  fixes s :: rat and n :: int
  assumes s: "0 \<le> s" and near: "\<bar>s - of_int n / 1000\<bar> \<le> 1 / 2 ^ 32"
  shows "\<lceil>(of_int n / 1000 :: rat)\<rceil> - 1 \<le> \<lfloor>s\<rfloor> \<and> \<lfloor>s\<rfloor> \<le> \<lfloor>(of_int n / 1000 :: rat)\<rfloor>"
proof -
  define q where "q = n div 1000"
  define m where "m = n mod 1000"
  have n: "n = 1000 * q + m" and m: "0 \<le> m" "m < 1000" by (simp_all add: q_def m_def)
  define S :: rat where "S = of_int n / 1000"
  have S: "S = of_int q + of_int m / 1000" by (simp add: S_def n)
  have mb: "(0::rat) \<le> of_int m" "(of_int m :: rat) \<le> 999" using m by simp_all
  have tiny: "(1::rat) / 2 ^ 32 < 1 / 1000" by simp
  have near': "\<bar>s - S\<bar> \<le> 1 / 2 ^ 32" unfolding S_def by (rule near)
  have fl: "\<lfloor>S\<rfloor> = q" unfolding S using mb by (simp add: floor_unique)
  have "s < of_int q + 1" using near' mb tiny S by linarith
  then have up: "\<lfloor>s\<rfloor> \<le> q" by (simp add: floor_le_iff)
  have "of_int (\<lceil>S\<rceil> - 1) \<le> s"
  proof (cases "m = 0")
    case True
    then have "S = of_int q" by (simp add: S)
    moreover from this have "(of_int \<lceil>S\<rceil> :: rat) = of_int q" by simp
    ultimately have "(of_int (\<lceil>S\<rceil> - 1) :: rat) = S - 1" by simp
    then show ?thesis using near' tiny by linarith
  next
    case False
    then have m1: "(1::rat) \<le> of_int m" using m by simp
    have "\<lceil>S\<rceil> \<le> q + 1" unfolding S using mb by (simp add: ceiling_le_iff)
    then have "(of_int \<lceil>S\<rceil> :: rat) \<le> of_int (q + 1)" by (simp only: of_int_le_iff)
    then have "(of_int (\<lceil>S\<rceil> - 1) :: rat) \<le> of_int q" by simp
    then show ?thesis using near' tiny m1 S by linarith
  qed
  then have "\<lceil>S\<rceil> - 1 \<le> \<lfloor>s\<rfloor>" by (simp add: le_floor_iff)
  with up fl show ?thesis by (simp add: S_def)
qed

text \<open>
  The rounding on known values: the floats of the literals \<open>0.1\<close> and \<open>0.299\<close>, and
  two ties just above \<open>2 ^ 53\<close>, which go to the even neighbour.
\<close>

lemma round_binary64_examples:
  "round_binary64 (1 / 10) = 3602879701896397 / 36028797018963968"
  "round_binary64 (299 / 1000) = 5386305154335113 / 18014398509481984"
  "round_binary64 9007199254740993 = 9007199254740992"
  "round_binary64 9007199254740995 = 9007199254740996"
  by code_simp+

section \<open>The weighted sums on channels in \<open>[0, 255]\<close>\<close>

lemma truncated_weighted:
  fixes A B C r g b :: int
  assumes A: "100 \<le> A" "A \<le> 1000" and B: "100 \<le> B" "B \<le> 1000" and C: "100 \<le> C" "C \<le> 1000"
    and r: "0 \<le> r" "r \<le> 255" and g: "0 \<le> g" "g \<le> 255" and b: "0 \<le> b" "b \<le> 255"
  defines "s \<equiv> weighted_value (of_int A / 1000) (of_int B / 1000) (of_int C / 1000) r g b"
    and "S \<equiv> (of_int (A * r + B * g + C * b) / 1000 :: rat)"
  shows "weighted (of_int A / 1000) (of_int B / 1000) (of_int C / 1000) r g b = Inr (Finite s)"
    and "int_of_float (Finite s) = Inr \<lfloor>s\<rfloor>"
    and "0 \<le> \<lfloor>s\<rfloor>" and "\<lceil>S\<rceil> - 1 \<le> \<lfloor>s\<rfloor>" and "\<lfloor>s\<rfloor> \<le> \<lfloor>S\<rfloor>"
proof -
  have wA: "1 / 10 \<le> (of_int A / 1000 :: rat)" "(of_int A / 1000 :: rat) \<le> 1"
    and wB: "1 / 10 \<le> (of_int B / 1000 :: rat)" "(of_int B / 1000 :: rat) \<le> 1"
    and wC: "1 / 10 \<le> (of_int C / 1000 :: rat)" "(of_int C / 1000 :: rat) \<le> 1"
    using A B C by simp_all
  note ws = weighted_small [OF wA wB wC r g b]
  show w: "weighted (of_int A / 1000) (of_int B / 1000) (of_int C / 1000) r g b = Inr (Finite s)"
    using ws by (simp add: s_def)
  have s0: "0 \<le> s" using ws by (simp add: s_def)
  then show "int_of_float (Finite s) = Inr \<lfloor>s\<rfloor>" by (simp add: int_of_float_def)
  show "0 \<le> \<lfloor>s\<rfloor>" using s0 by simp
  have "of_int A / 1000 * of_int r + of_int B / 1000 * of_int g + of_int C / 1000 * of_int b = S"
    by (simp add: S_def field_simps)
  with ws have "\<bar>s - S\<bar> \<le> 1 / 2 ^ 32" by (simp only: s_def)
  then have "\<bar>s - of_int (A * r + B * g + C * b) / 1000\<bar> \<le> 1 / 2 ^ 32" by (simp only: S_def)
  from floor_near_thousandth [OF s0 this]
  show "\<lceil>S\<rceil> - 1 \<le> \<lfloor>s\<rfloor>" and "\<lfloor>s\<rfloor> \<le> \<lfloor>S\<rfloor>" by (simp_all only: S_def)
qed

lemma grayscale_value:
  assumes "0 \<le> r" "r \<le> 255" "0 \<le> g" "g \<le> 255" "0 \<le> b" "b \<le> 255"
  defines "v \<equiv> \<lfloor>weighted_value (299 / 1000) (587 / 1000) (114 / 1000) r g b\<rfloor>"
  shows "grayscale_conversion_func r g b = Inr (v, v, v)"
    and "0 \<le> v"
    and "\<lceil>(299 * of_int r + 587 * of_int g + 114 * of_int b) / 1000 :: rat\<rceil> - 1 \<le> v"
    and "v \<le> \<lfloor>(299 * of_int r + 587 * of_int g + 114 * of_int b) / 1000 :: rat\<rfloor>"
  using truncated_weighted [of 299 587 114 r g b] assms(1-6)
  by (simp_all add: grayscale_conversion_func_def v_def)

lemma sepia_value:
  assumes "0 \<le> r" "r \<le> 255" "0 \<le> g" "g \<le> 255" "0 \<le> b" "b \<le> 255"
  defines "v1 \<equiv> \<lfloor>weighted_value (393 / 1000) (769 / 1000) (189 / 1000) r g b\<rfloor>"
    and "v2 \<equiv> \<lfloor>weighted_value (349 / 1000) (686 / 1000) (168 / 1000) r g b\<rfloor>"
    and "v3 \<equiv> \<lfloor>weighted_value (272 / 1000) (534 / 1000) (131 / 1000) r g b\<rfloor>"
  shows "sepia_conversion_func r g b = Inr (v1, v2, v3)"
    and "\<lceil>(393 * of_int r + 769 * of_int g + 189 * of_int b) / 1000 :: rat\<rceil> - 1 \<le> v1"
    and "v1 \<le> \<lfloor>(393 * of_int r + 769 * of_int g + 189 * of_int b) / 1000 :: rat\<rfloor>"
    and "\<lceil>(349 * of_int r + 686 * of_int g + 168 * of_int b) / 1000 :: rat\<rceil> - 1 \<le> v2"
    and "v2 \<le> \<lfloor>(349 * of_int r + 686 * of_int g + 168 * of_int b) / 1000 :: rat\<rfloor>"
    and "\<lceil>(272 * of_int r + 534 * of_int g + 131 * of_int b) / 1000 :: rat\<rceil> - 1 \<le> v3"
    and "v3 \<le> \<lfloor>(272 * of_int r + 534 * of_int g + 131 * of_int b) / 1000 :: rat\<rfloor>"
  using truncated_weighted [of 393 769 189 r g b] truncated_weighted [of 349 686 168 r g b]
    truncated_weighted [of 272 534 131 r g b] assms(1-6)
  by (simp_all add: sepia_conversion_func_def v1_def v2_def v3_def)

section \<open>The loops of the transformer\<close>

lemma for_in_append: "for_in (xs @ ys) body s = then_do (for_in xs body s) (for_in ys body)"
  by (induction xs arbitrary: s) (simp_all add: then_do_def split: sum.splits)

lemma for_in_map: "for_in (map h ys) body s = for_in ys (\<lambda>j. body (h j)) s"
  by (induction ys arbitrary: s) (simp_all add: then_do_def split: sum.splits)

lemma for_in_nested:
  "for_in xs (\<lambda>i. for_in ys (\<lambda>j. body (i, j))) s = for_in (List.product xs ys) body s"
  by (induction xs arbitrary: s) (simp_all add: for_in_append for_in_map then_do_def split: sum.splits)

lemma transform_pixels_flat:
  "transform_pixels pm W H f = for_in (List.product (range_int W) (range_int H)) (transform_pixel f) pm"
  by (simp add: transform_pixels_def for_in_nested)

lemma transform_pixel_ok:
  assumes "pixels pm xy = Some (r, g, b)" and "f r g b = Inr p"
  shows "transform_pixel f xy pm =
           Inr (pm\<lparr>pixels := (pixels pm)(xy \<mapsto> p), accesses := accesses pm @ [Read xy, Write xy p]\<rparr>)"
  using assms by (simp add: transform_pixel_def getitem_def setitem_def)

lemma for_in_transform_pixel:
  assumes "distinct cs"
    and "\<forall>xy\<in>set cs. \<exists>r g b. pixels pm xy = Some (r, g, b) \<and> f r g b = Inr (q (r, g, b))"
  shows "for_in cs (transform_pixel f) pm =
           Inr (pm\<lparr>pixels := (\<lambda>xy. if xy \<in> set cs then map_option q (pixels pm xy) else pixels pm xy),
                   accesses := accesses pm @ concat (map (\<lambda>xy. [Read xy, Write xy (q (the (pixels pm xy)))]) cs)\<rparr>)"
  using assms
proof (induction cs arbitrary: pm)
  case Nil
  then show ?case by simp
next
  case (Cons c cs)
  from Cons.prems obtain r g b where c: "pixels pm c = Some (r, g, b)" "f r g b = Inr (q (r, g, b))"
    by auto
  define pm1 where
    "pm1 = pm\<lparr>pixels := (pixels pm)(c \<mapsto> q (r, g, b)),
              accesses := accesses pm @ [Read c, Write c (q (r, g, b))]\<rparr>"
  have step: "transform_pixel f c pm = Inr pm1"
    unfolding pm1_def using c by (rule transform_pixel_ok)
  have notin: "c \<notin> set cs" and dist: "distinct cs" using Cons.prems(1) by simp_all
  have same: "\<And>xy. xy \<in> set cs \<Longrightarrow> pixels pm1 xy = pixels pm xy"
    using notin by (auto simp: pm1_def)
  have "\<forall>xy\<in>set cs. \<exists>r g b. pixels pm1 xy = Some (r, g, b) \<and> f r g b = Inr (q (r, g, b))"
    using Cons.prems(2) same by simp
  from Cons.IH [OF dist this] have ih:
    "for_in cs (transform_pixel f) pm1 =
       Inr (pm1\<lparr>pixels := (\<lambda>xy. if xy \<in> set cs then map_option q (pixels pm1 xy) else pixels pm1 xy),
                accesses := accesses pm1 @ concat (map (\<lambda>xy. [Read xy, Write xy (q (the (pixels pm1 xy)))]) cs)\<rparr>)" .
  have px: "(\<lambda>xy. if xy \<in> set cs then map_option q (pixels pm1 xy) else pixels pm1 xy)
      = (\<lambda>xy. if xy \<in> set (c # cs) then map_option q (pixels pm xy) else pixels pm xy)"
    using notin c by (auto simp: pm1_def fun_eq_iff)
  have lg: "map (\<lambda>xy. [Read xy, Write xy (q (the (pixels pm1 xy)))]) cs
      = map (\<lambda>xy. [Read xy, Write xy (q (the (pixels pm xy)))]) cs"
    using same by simp
  have acc: "accesses pm1 @ concat (map (\<lambda>xy. [Read xy, Write xy (q (the (pixels pm xy)))]) cs)
      = accesses pm @ concat (map (\<lambda>xy. [Read xy, Write xy (q (the (pixels pm xy)))]) (c # cs))"
    using c by (simp add: pm1_def)
  have upd: "\<And>A B. pm1\<lparr>pixels := A, accesses := B\<rparr> = pm\<lparr>pixels := A, accesses := B\<rparr>"
    by (simp add: pm1_def)
  have "for_in (c # cs) (transform_pixel f) pm = for_in cs (transform_pixel f) pm1"
    by (simp add: step)
  also note ih
  finally show ?case by (simp only: px lg acc upd)
qed

lemma set_range_int: "set (range_int n) = {x. 0 \<le> x \<and> x < n}"
  by (auto simp: range_int_def)

lemma distinct_range_int: "distinct (range_int n)"
  by (simp add: range_int_def)

lemma set_coordinates:
  "set (List.product (range_int W) (range_int H)) = {(x, y). 0 \<le> x \<and> x < W \<and> 0 \<le> y \<and> y < H}"
  by (auto simp: set_range_int)

lemma distinct_coordinates: "distinct (List.product (range_int W) (range_int H))"
  by (simp add: distinct_product distinct_range_int)

section \<open>Evaluations of the conversion functions\<close>

lemma grayscale_at:
  assumes "0 \<le> r" "r \<le> 255" "0 \<le> g" "g \<le> 255" "0 \<le> b" "b \<le> 255"
    and "\<lfloor>weighted_value (299 / 1000) (587 / 1000) (114 / 1000) r g b\<rfloor> = v"
  shows "grayscale_conversion_func r g b = Inr (v, v, v)"
  using grayscale_value(1) [OF assms(1-6)] by (simp only: assms(7))

lemma gray_1_1_1: "\<lfloor>weighted_value (299 / 1000) (587 / 1000) (114 / 1000) 1 1 1\<rfloor> = 0"
  by code_simp

lemma gray_3_2_1: "\<lfloor>weighted_value (299 / 1000) (587 / 1000) (114 / 1000) 3 2 1\<rfloor> = 2"
  by code_simp

lemma gray_2_2_2: "\<lfloor>weighted_value (299 / 1000) (587 / 1000) (114 / 1000) 2 2 2\<rfloor> = 1"
  by code_simp

lemma gray_0_0_5: "\<lfloor>weighted_value (299 / 1000) (587 / 1000) (114 / 1000) 0 0 5\<rfloor> = 0"
  by code_simp

lemma sepia_4_11_21:
  "\<lfloor>weighted_value (393 / 1000) (769 / 1000) (189 / 1000) 4 11 21\<rfloor> = 13"
  "\<lfloor>weighted_value (349 / 1000) (686 / 1000) (168 / 1000) 4 11 21\<rfloor> = 12"
  "\<lfloor>weighted_value (272 / 1000) (534 / 1000) (131 / 1000) 4 11 21\<rfloor> = 9"
  by code_simp+

section \<open>Truncation against rounding\<close>

lemma truncation_against_round:
  fixes S :: rat and v :: int
  assumes lo: "\<lceil>S\<rceil> - 1 \<le> v" and hi: "v \<le> \<lfloor>S\<rfloor>"
  shows "(0 < frac S \<and> frac S < 1 / 2 \<longrightarrow> v = round S)
       \<and> (1 / 2 \<le> frac S \<longrightarrow> v = round S - 1)
       \<and> (frac S = 0 \<longrightarrow> v = round S \<or> v = round S - 1)"
proof -
  define n where "n = \<lfloor>S\<rfloor>"
  have S: "S = of_int n + frac S" by (simp add: frac_def n_def)
  have f: "0 \<le> frac S" "frac S < 1" by (simp_all add: frac_lt_1)
  have pos: "v = n" if "0 < frac S"
  proof -
    have "of_int n < S" using S that by linarith
    then have "n < \<lceil>S\<rceil>" by (simp add: less_ceiling_iff)
    with lo hi show ?thesis by (simp add: n_def)
  qed
  have low: "round S = n" if "frac S < 1 / 2"
    unfolding round_def by (rule floor_unique) (use S f that in linarith)+
  have high: "round S = n + 1" if "1 / 2 \<le> frac S"
    unfolding round_def by (rule floor_unique) (use S f that in \<open>simp; linarith\<close>)+
  have zero: "v = n \<or> v = n - 1" if "frac S = 0"
  proof -
    have "S = of_int n" using S that by simp
    then have "\<lceil>S\<rceil> = n" by (metis ceiling_of_int)
    with lo hi show ?thesis by (auto simp: n_def)
  qed
  show ?thesis
  proof (intro conjI impI)
    assume a: "0 < frac S \<and> frac S < 1 / 2"
    then have "v = n" "round S = n" using pos low by blast+
    then show "v = round S" by (simp only:)
  next
    assume a: "1 / 2 \<le> frac S"
    then have "0 < frac S" by linarith
    then have "v = n" by (rule pos)
    moreover have "round S = n + 1" using a by (rule high)
    ultimately show "v = round S - 1" by linarith
  next
    assume a: "frac S = 0"
    then have "frac S < 1 / 2" by linarith
    then have "round S = n" by (rule low)
    moreover have "v = n \<or> v = n - 1" using a by (rule zero)
    ultimately show "v = round S \<or> v = round S - 1" by (simp only:)
  qed
qed

section \<open>The registry\<close>

lemma function_for_filter_total:
  "function_for_filter GRAYSCALE = Inr convert_to_grayscale"
  "function_for_filter SEPIA = Inr convert_to_sepia"
  "function_for_filter WARMER = Inr convert_to_warmer"
  "function_for_filter COOLER = Inr convert_to_cooler"
  by (simp_all add: function_for_filter_def filter_map_def)

lemma upper_canonical:
  "upper ''grayscale'' = ''GRAYSCALE''" "upper ''sepia'' = ''SEPIA''"
  "upper ''warmer'' = ''WARMER''" "upper ''cooler'' = ''COOLER''"
  by code_simp+

section \<open>The claims\<close>

subsection \<open>C1: the transformer applies the function to every pixel\<close>

text \<open>
  C1. Let the pixel map hold a pixel at every coordinate \<open>(x, y)\<close> with
  \<open>0 \<le> x < W\<close> and \<open>0 \<le> y < H\<close>, and let the conversion function return \<open>q p\<close> on
  each of these pixels \<open>p\<close>. Then \<open>transform_pixels\<close> completes, and afterwards the
  value at every such coordinate is \<open>q\<close> of the original value there; every other
  coordinate keeps its value. The accesses are, for each coordinate in turn, one read of
  it followed by one write to it of \<open>q\<close> of the value read: each coordinate is read
  before it is written and nothing else is consulted. Visiting the same coordinates once
  each in any other order gives the same pixels.
\<close>

theorem transform_pixels_pointwise:
  assumes "\<forall>x y. 0 \<le> x \<and> x < W \<and> 0 \<le> y \<and> y < H \<longrightarrow>
             (\<exists>r g b. pixels pm (x, y) = Some (r, g, b) \<and> f r g b = Inr (q (r, g, b)))"
  shows "\<exists>pm'. transform_pixels pm W H f = Inr pm'
           \<and> (\<forall>x y. 0 \<le> x \<and> x < W \<and> 0 \<le> y \<and> y < H \<longrightarrow>
                 pixels pm' (x, y) = map_option q (pixels pm (x, y)))
           \<and> (\<forall>x y. \<not> (0 \<le> x \<and> x < W \<and> 0 \<le> y \<and> y < H) \<longrightarrow>
                 pixels pm' (x, y) = pixels pm (x, y))
           \<and> accesses pm' = accesses pm @
                 concat (map (\<lambda>xy. [Read xy, Write xy (q (the (pixels pm xy)))])
                           (List.product (range_int W) (range_int H)))
           \<and> (\<forall>cs. distinct cs \<and> set cs = {(x, y). 0 \<le> x \<and> x < W \<and> 0 \<le> y \<and> y < H} \<longrightarrow>
                 (\<exists>pm''. for_in cs (transform_pixel f) pm = Inr pm'' \<and> pixels pm'' = pixels pm'))"
proof -
  let ?cs = "List.product (range_int W) (range_int H)"
  let ?px = "\<lambda>cs xy. if xy \<in> set cs then map_option q (pixels pm xy) else pixels pm xy"
  let ?log = "\<lambda>cs. accesses pm @ concat (map (\<lambda>xy. [Read xy, Write xy (q (the (pixels pm xy)))]) cs)"
  have ok: "\<forall>xy\<in>set cs. \<exists>r g b. pixels pm xy = Some (r, g, b) \<and> f r g b = Inr (q (r, g, b))"
    if "set cs = {(x, y). 0 \<le> x \<and> x < W \<and> 0 \<le> y \<and> y < H}" for cs
    using assms that by auto
  have run: "for_in cs (transform_pixel f) pm = Inr (pm\<lparr>pixels := ?px cs, accesses := ?log cs\<rparr>)"
    if "distinct cs" "set cs = {(x, y). 0 \<le> x \<and> x < W \<and> 0 \<le> y \<and> y < H}" for cs
    using that(1) ok [OF that(2)] by (rule for_in_transform_pixel)
  define pm' where "pm' = pm\<lparr>pixels := ?px ?cs, accesses := ?log ?cs\<rparr>"
  have "transform_pixels pm W H f = Inr pm'"
    unfolding transform_pixels_flat pm'_def
    using distinct_coordinates set_coordinates by (rule run)
  moreover have "\<forall>x y. 0 \<le> x \<and> x < W \<and> 0 \<le> y \<and> y < H \<longrightarrow>
      pixels pm' (x, y) = map_option q (pixels pm (x, y))"
    by (simp add: pm'_def set_range_int)
  moreover have "\<forall>x y. \<not> (0 \<le> x \<and> x < W \<and> 0 \<le> y \<and> y < H) \<longrightarrow>
      pixels pm' (x, y) = pixels pm (x, y)"
    by (simp add: pm'_def set_range_int)
  moreover have "accesses pm' = ?log ?cs" by (simp add: pm'_def)
  moreover have "\<forall>cs. distinct cs \<and> set cs = {(x, y). 0 \<le> x \<and> x < W \<and> 0 \<le> y \<and> y < H} \<longrightarrow>
      (\<exists>pm''. for_in cs (transform_pixel f) pm = Inr pm'' \<and> pixels pm'' = pixels pm')"
  proof (intro allI impI)
    fix cs
    assume cs: "distinct cs \<and> set cs = {(x, y). 0 \<le> x \<and> x < W \<and> 0 \<le> y \<and> y < H}"
    then have "for_in cs (transform_pixel f) pm = Inr (pm\<lparr>pixels := ?px cs, accesses := ?log cs\<rparr>)"
      by (intro run) simp_all
    moreover have "set cs = set ?cs" using cs set_coordinates by simp
    then have "?px cs = ?px ?cs" by (simp only:)
    ultimately show "\<exists>pm''. for_in cs (transform_pixel f) pm = Inr pm'' \<and> pixels pm'' = pixels pm'"
      by (simp add: pm'_def)
  qed
  ultimately show ?thesis by blast
qed

text \<open>
  C1 on a buffer of width 1 and height 2 with the warmer function.
\<close>

theorem transform_pixels_pointwise_witness:
  "\<exists>pm'. transform_pixels \<lparr>pixels = [(0, 0) \<mapsto> (1, 2, 3), (0, 1) \<mapsto> (250, 0, 0)], accesses = []\<rparr> 1 2
             warmer_conversion_func = Inr pm'
     \<and> pixels pm' (0, 0) = Some (16, 2, - 12) \<and> pixels pm' (0, 1) = Some (265, 0, - 15)
     \<and> accesses pm' = [Read (0, 0), Write (0, 0) (16, 2, - 12), Read (0, 1), Write (0, 1) (265, 0, - 15)]"
proof -
  let ?pm = "\<lparr>pixels = [(0, 0) \<mapsto> (1, 2, 3), (0, 1) \<mapsto> (250, 0, 0)], accesses = []\<rparr>"
  let ?q = "\<lambda>(r, g, b). (r + 15, g, b - 15 :: int)"
  have h: "\<forall>x y. 0 \<le> x \<and> x < 1 \<and> 0 \<le> y \<and> y < 2 \<longrightarrow>
      (\<exists>r g b. pixels ?pm (x, y) = Some (r, g, b) \<and> warmer_conversion_func r g b = Inr (?q (r, g, b)))"
  proof (intro allI impI)
    fix x y :: int
    assume "0 \<le> x \<and> x < 1 \<and> 0 \<le> y \<and> y < 2"
    then have "x = 0" "y = 0 \<or> y = 1" by auto
    then show "\<exists>r g b. pixels ?pm (x, y) = Some (r, g, b) \<and> warmer_conversion_func r g b = Inr (?q (r, g, b))"
      by (auto simp: warmer_conversion_func_def)
  qed
  have c: "List.product (range_int 1) (range_int 2) = [(0, 0), (0, 1)]"
    by (simp add: range_int_def upto.simps)
  from transform_pixels_pointwise [of 1 2 ?pm warmer_conversion_func ?q, OF h]
  show ?thesis unfolding c by auto
qed

subsection \<open>C2: grayscale and the floor of the weighted sum\<close>

text \<open>
  C2 says that each channel of the grayscale result is the floor of the exact sum
  \<open>0.299 r + 0.587 g + 0.114 b\<close>. The source computes the sum in floats: on \<open>(1, 1, 1)\<close>
  the exact sum is \<open>1\<close>, the float sum is just below \<open>1\<close>, and the result is
  \<open>(0, 0, 0)\<close>.
\<close>

theorem grayscale_floor_counterexample:
  "grayscale_conversion_func 1 1 1 = Inr (0, 0, 0)
   \<and> \<lfloor>(299 * 1 + 587 * 1 + 114 * 1) / 1000 :: rat\<rfloor> = 1"
proof -
  have "grayscale_conversion_func 1 1 1 = Inr (0, 0, 0)"
    by (rule grayscale_at [OF _ _ _ _ _ _ gray_1_1_1]) simp_all
  then show ?thesis by simp
qed

text \<open>
  C2, amended. For channels in \<open>[0, 255]\<close> the grayscale function returns three equal
  channels \<open>v\<close> with \<open>\<lceil>S\<rceil> - 1 \<le> v \<le> \<lfloor>S\<rfloor>\<close>, where \<open>S\<close> is the exact sum
  \<open>(299 r + 587 g + 114 b) / 1000\<close>: \<open>v\<close> is the floor of \<open>S\<close> whenever \<open>S\<close> is not an
  integer, and \<open>S\<close> or \<open>S - 1\<close> when it is.
\<close>

theorem grayscale_truncation_bounds:
  assumes "0 \<le> r \<and> r \<le> 255" and "0 \<le> g \<and> g \<le> 255" and "0 \<le> b \<and> b \<le> 255"
  shows "\<exists>v. grayscale_conversion_func r g b = Inr (v, v, v)
           \<and> \<lceil>(299 * of_int r + 587 * of_int g + 114 * of_int b) / 1000 :: rat\<rceil> - 1 \<le> v
           \<and> v \<le> \<lfloor>(299 * of_int r + 587 * of_int g + 114 * of_int b) / 1000 :: rat\<rfloor>"
proof -
  from assms have "0 \<le> r" "r \<le> 255" "0 \<le> g" "g \<le> 255" "0 \<le> b" "b \<le> 255" by simp_all
  from grayscale_value [OF this] show ?thesis by blast
qed

text \<open>
  C2, amended, on \<open>(200, 150, 100)\<close>, where the exact sum is \<open>159.25\<close>.
\<close>

theorem grayscale_truncation_bounds_witness:
  "grayscale_conversion_func 200 150 100 = Inr (159, 159, 159)"
proof -
  have "\<lfloor>(299 * of_int 200 + 587 * of_int 150 + 114 * of_int 100) / 1000 :: rat\<rfloor> = 159"
    by (rule floor_unique) simp_all
  moreover have "\<lceil>(299 * of_int 200 + 587 * of_int 150 + 114 * of_int 100) / 1000 :: rat\<rceil> = 160"
    by (rule ceiling_unique) simp_all
  moreover obtain v where "grayscale_conversion_func 200 150 100 = Inr (v, v, v)"
    "\<lceil>(299 * of_int 200 + 587 * of_int 150 + 114 * of_int 100) / 1000 :: rat\<rceil> - 1 \<le> v"
    "v \<le> \<lfloor>(299 * of_int 200 + 587 * of_int 150 + 114 * of_int 100) / 1000 :: rat\<rfloor>"
    using grayscale_truncation_bounds [of 200 150 100] by auto
  ultimately show ?thesis by (simp only:) simp
qed

subsection \<open>C3: sepia and the truncated weighted sums\<close>

text \<open>
  C3 says that each sepia channel is the truncation of the exact weighted sum. On
  \<open>(4, 11, 21)\<close> the exact red sum is \<open>14\<close>, the float sum is just below it, and the
  red channel is \<open>13\<close>.
\<close>

theorem sepia_exact_counterexample:
  "sepia_conversion_func 4 11 21 = Inr (13, 12, 9)
   \<and> \<lfloor>(393 * 4 + 769 * 11 + 189 * 21) / 1000 :: rat\<rfloor> = 14"
proof -
  have "sepia_conversion_func 4 11 21 =
      Inr (\<lfloor>weighted_value (393 / 1000) (769 / 1000) (189 / 1000) 4 11 21\<rfloor>,
           \<lfloor>weighted_value (349 / 1000) (686 / 1000) (168 / 1000) 4 11 21\<rfloor>,
           \<lfloor>weighted_value (272 / 1000) (534 / 1000) (131 / 1000) 4 11 21\<rfloor>)"
    by (rule sepia_value(1)) simp_all
  then have "sepia_conversion_func 4 11 21 = Inr (13, 12, 9)" by (simp only: sepia_4_11_21)
  then show ?thesis by simp
qed

text \<open>
  C3, amended. For channels in \<open>[0, 255]\<close> the sepia function returns \<open>(R', G', B')\<close>
  where each channel \<open>v\<close> satisfies \<open>\<lceil>S\<rceil> - 1 \<le> v \<le> \<lfloor>S\<rfloor>\<close> for its exact sum \<open>S\<close>
  (\<open>(393 r + 769 g + 189 b) / 1000\<close>, \<open>(349 r + 686 g + 168 b) / 1000\<close>,
  \<open>(272 r + 534 g + 131 b) / 1000\<close>): the truncation of \<open>S\<close> unless \<open>S\<close> is an integer,
  when it may be \<open>S - 1\<close>. Nothing clamps the result to \<open>255\<close>.
\<close>

theorem sepia_truncation_bounds:
  assumes "0 \<le> r \<and> r \<le> 255" and "0 \<le> g \<and> g \<le> 255" and "0 \<le> b \<and> b \<le> 255"
  shows "\<exists>R' G' B'. sepia_conversion_func r g b = Inr (R', G', B')
           \<and> \<lceil>(393 * of_int r + 769 * of_int g + 189 * of_int b) / 1000 :: rat\<rceil> - 1 \<le> R'
           \<and> R' \<le> \<lfloor>(393 * of_int r + 769 * of_int g + 189 * of_int b) / 1000 :: rat\<rfloor>
           \<and> \<lceil>(349 * of_int r + 686 * of_int g + 168 * of_int b) / 1000 :: rat\<rceil> - 1 \<le> G'
           \<and> G' \<le> \<lfloor>(349 * of_int r + 686 * of_int g + 168 * of_int b) / 1000 :: rat\<rfloor>
           \<and> \<lceil>(272 * of_int r + 534 * of_int g + 131 * of_int b) / 1000 :: rat\<rceil> - 1 \<le> B'
           \<and> B' \<le> \<lfloor>(272 * of_int r + 534 * of_int g + 131 * of_int b) / 1000 :: rat\<rfloor>"
proof -
  from assms have "0 \<le> r" "r \<le> 255" "0 \<le> g" "g \<le> 255" "0 \<le> b" "b \<le> 255" by simp_all
  from sepia_value [OF this] show ?thesis by blast
qed

text \<open>
  C3, amended, on \<open>(255, 255, 255)\<close>: the red and green channels exceed \<open>255\<close>.
\<close>

theorem sepia_truncation_bounds_witness:
  "sepia_conversion_func 255 255 255 = Inr (344, 306, 238)"
proof -
  have "\<lfloor>(393 * of_int 255 + 769 * of_int 255 + 189 * of_int 255) / 1000 :: rat\<rfloor> = 344"
    "\<lfloor>(349 * of_int 255 + 686 * of_int 255 + 168 * of_int 255) / 1000 :: rat\<rfloor> = 306"
    "\<lfloor>(272 * of_int 255 + 534 * of_int 255 + 131 * of_int 255) / 1000 :: rat\<rfloor> = 238"
    by (rule floor_unique; simp)+
  moreover have "\<lceil>(393 * of_int 255 + 769 * of_int 255 + 189 * of_int 255) / 1000 :: rat\<rceil> = 345"
    "\<lceil>(349 * of_int 255 + 686 * of_int 255 + 168 * of_int 255) / 1000 :: rat\<rceil> = 307"
    "\<lceil>(272 * of_int 255 + 534 * of_int 255 + 131 * of_int 255) / 1000 :: rat\<rceil> = 239"
    by (rule ceiling_unique; simp)+
  moreover obtain R' G' B' where "sepia_conversion_func 255 255 255 = Inr (R', G', B')"
    "\<lceil>(393 * of_int 255 + 769 * of_int 255 + 189 * of_int 255) / 1000 :: rat\<rceil> - 1 \<le> R'"
    "R' \<le> \<lfloor>(393 * of_int 255 + 769 * of_int 255 + 189 * of_int 255) / 1000 :: rat\<rfloor>"
    "\<lceil>(349 * of_int 255 + 686 * of_int 255 + 168 * of_int 255) / 1000 :: rat\<rceil> - 1 \<le> G'"
    "G' \<le> \<lfloor>(349 * of_int 255 + 686 * of_int 255 + 168 * of_int 255) / 1000 :: rat\<rfloor>"
    "\<lceil>(272 * of_int 255 + 534 * of_int 255 + 131 * of_int 255) / 1000 :: rat\<rceil> - 1 \<le> B'"
    "B' \<le> \<lfloor>(272 * of_int 255 + 534 * of_int 255 + 131 * of_int 255) / 1000 :: rat\<rfloor>"
    using sepia_truncation_bounds [of 255 255 255] by auto
  ultimately show ?thesis by (simp only:) simp
qed

subsection \<open>C4: warmer and cooler\<close>

text \<open>
  C4. On every triple of ints the warmer function returns \<open>(r + 15, g, b - 15)\<close> and
  the cooler function returns \<open>(r - 15, g, b + 15)\<close>, unclamped: warmer on \<open>(250, 0, 0)\<close>
  gives the red channel \<open>265\<close> and the blue channel \<open>-15\<close>.
\<close>

theorem warmer_cooler_exact:
  "warmer_conversion_func r g b = Inr (r + 15, g, b - 15)
   \<and> cooler_conversion_func r g b = Inr (r - 15, g, b + 15)
   \<and> warmer_conversion_func 250 0 0 = Inr (265, 0, - 15)"
  by (simp add: warmer_conversion_func_def cooler_conversion_func_def)

subsection \<open>C5: filter selection\<close>

text \<open>
  C5. Resolving a name (\<open>filter_from_string\<close>, then \<open>function_for_filter\<close>) depends
  on its uppercasing only: a string whose uppercasing is \<open>GRAYSCALE\<close>, \<open>SEPIA\<close>,
  \<open>WARMER\<close> or \<open>COOLER\<close> resolves to the same function as the lowercase name, and every
  other string raises and returns no function. The exception of the source is
  \<open>KeyError\<close>, which is what the spec calls InvalidFilterSelector.
\<close>

theorem filter_selection_case_insensitive:
  "(upper s = ''GRAYSCALE'' \<longrightarrow>
      then_do (filter_from_string s) function_for_filter = Inr convert_to_grayscale
      \<and> then_do (filter_from_string ''grayscale'') function_for_filter = Inr convert_to_grayscale)
   \<and> (upper s = ''SEPIA'' \<longrightarrow>
      then_do (filter_from_string s) function_for_filter = Inr convert_to_sepia
      \<and> then_do (filter_from_string ''sepia'') function_for_filter = Inr convert_to_sepia)
   \<and> (upper s = ''WARMER'' \<longrightarrow>
      then_do (filter_from_string s) function_for_filter = Inr convert_to_warmer
      \<and> then_do (filter_from_string ''warmer'') function_for_filter = Inr convert_to_warmer)
   \<and> (upper s = ''COOLER'' \<longrightarrow>
      then_do (filter_from_string s) function_for_filter = Inr convert_to_cooler
      \<and> then_do (filter_from_string ''cooler'') function_for_filter = Inr convert_to_cooler)
   \<and> (upper s \<notin> {''GRAYSCALE'', ''SEPIA'', ''WARMER'', ''COOLER''} \<longrightarrow>
      filter_from_string s = Inl KeyError
      \<and> then_do (filter_from_string s) function_for_filter = Inl KeyError)"
  by (simp add: filter_from_string_def Filter_members_def function_for_filter_total upper_canonical)

text \<open>
  C5 on \<open>GRAYSCALE\<close>, \<open>grayscale\<close>, \<open>Grayscale\<close>, mixed-case names of the other
  filters, and \<open>blur\<close>.
\<close>

theorem filter_selection_case_insensitive_witness:
  "then_do (filter_from_string ''GRAYSCALE'') function_for_filter = Inr convert_to_grayscale
   \<and> then_do (filter_from_string ''grayscale'') function_for_filter = Inr convert_to_grayscale
   \<and> then_do (filter_from_string ''Grayscale'') function_for_filter = Inr convert_to_grayscale
   \<and> then_do (filter_from_string ''sEpIa'') function_for_filter = Inr convert_to_sepia
   \<and> then_do (filter_from_string ''Warmer'') function_for_filter = Inr convert_to_warmer
   \<and> then_do (filter_from_string ''COOLer'') function_for_filter = Inr convert_to_cooler
   \<and> then_do (filter_from_string ''blur'') function_for_filter = Inl KeyError"
proof -
  have u: "upper ''GRAYSCALE'' = ''GRAYSCALE''" "upper ''Grayscale'' = ''GRAYSCALE''"
    "upper ''sEpIa'' = ''SEPIA''" "upper ''Warmer'' = ''WARMER''" "upper ''COOLer'' = ''COOLER''"
    "upper ''blur'' = ''BLUR''"
    by code_simp+
  show ?thesis
    using filter_selection_case_insensitive [of "''GRAYSCALE''"]
      filter_selection_case_insensitive [of "''Grayscale''"]
      filter_selection_case_insensitive [of "''sEpIa''"]
      filter_selection_case_insensitive [of "''Warmer''"]
      filter_selection_case_insensitive [of "''COOLer''"]
      filter_selection_case_insensitive [of "''blur''"]
    by (simp add: u)
qed

subsection \<open>C6: the cooler filter on a buffer of width 2 and height 1\<close>

text \<open>
  C6. On the buffer with pixels \<open>(200, 150, 100)\<close> at \<open>(0, 0)\<close> and \<open>(10, 10, 10)\<close>
  at \<open>(1, 0)\<close> the cooler filter leaves \<open>(185, 150, 115)\<close> and \<open>(-5, 10, 25)\<close>: the red
  channel of the second pixel is the negative value \<open>-5\<close>.
\<close>

theorem cooler_two_by_one:
  "convert_to_cooler \<lparr>pixels = [(0, 0) \<mapsto> (200, 150, 100), (1, 0) \<mapsto> (10, 10, 10)], accesses = []\<rparr> 2 1
     = Inr \<lparr>pixels = [(0, 0) \<mapsto> (185, 150, 115), (1, 0) \<mapsto> (- 5, 10, 25)],
            accesses = [Read (0, 0), Write (0, 0) (185, 150, 115), Read (1, 0), Write (1, 0) (- 5, 10, 25)]\<rparr>"
  by (simp add: convert_to_cooler_def transform_pixels_def range_int_def upto.simps
      transform_pixel_def getitem_def setitem_def cooler_conversion_func_def fun_upd_twist)

subsection \<open>C7: grayscale twice\<close>

text \<open>
  C7 says that grayscale is idempotent. On \<open>(3, 2, 1)\<close> the result is \<open>(2, 2, 2)\<close>,
  and grayscale of \<open>(2, 2, 2)\<close> is \<open>(1, 1, 1)\<close>: the float sum of
  \<open>0.299 * 2\<close>, \<open>0.587 * 2\<close> and \<open>0.114 * 2\<close> is just below \<open>2\<close>.
\<close>

theorem grayscale_idempotence_counterexample:
  "grayscale_conversion_func 3 2 1 = Inr (2, 2, 2)
   \<and> grayscale_conversion_func 2 2 2 = Inr (1, 1, 1)"
proof -
  have "grayscale_conversion_func 3 2 1 = Inr (2, 2, 2)"
    by (rule grayscale_at [OF _ _ _ _ _ _ gray_3_2_1]) simp_all
  moreover have "grayscale_conversion_func 2 2 2 = Inr (1, 1, 1)"
    by (rule grayscale_at [OF _ _ _ _ _ _ gray_2_2_2]) simp_all
  ultimately show ?thesis by simp
qed

text \<open>
  C7, amended. For channels in \<open>[0, 255]\<close>, grayscale returns a gray pixel
  \<open>(v, v, v)\<close>, and grayscale of that pixel is a gray pixel \<open>(w, w, w)\<close> with
  \<open>v - 1 \<le> w \<le> v\<close>: a second application keeps the value or lowers it by one.
\<close>

theorem grayscale_twice_within_one:
  assumes "0 \<le> r \<and> r \<le> 255" and "0 \<le> g \<and> g \<le> 255" and "0 \<le> b \<and> b \<le> 255"
  shows "\<exists>v w. grayscale_conversion_func r g b = Inr (v, v, v)
           \<and> grayscale_conversion_func v v v = Inr (w, w, w)
           \<and> v - 1 \<le> w \<and> w \<le> v"
proof -
  define v where "v = \<lfloor>weighted_value (299 / 1000) (587 / 1000) (114 / 1000) r g b\<rfloor>"
  note first = grayscale_value [of r g b, folded v_def]
  have g1: "grayscale_conversion_func r g b = Inr (v, v, v)" and v0: "0 \<le> v"
    and vu: "v \<le> \<lfloor>(299 * of_int r + 587 * of_int g + 114 * of_int b) / 1000 :: rat\<rfloor>"
    using first assms by simp_all
  have "(299 * of_int r + 587 * of_int g + 114 * of_int b) / 1000 \<le> (255 :: rat)"
    using assms by simp
  then have "\<lfloor>(299 * of_int r + 587 * of_int g + 114 * of_int b) / 1000 :: rat\<rfloor> \<le> 255"
    by (simp add: floor_le_iff)
  with vu have v255: "v \<le> 255" by linarith
  define w where "w = \<lfloor>weighted_value (299 / 1000) (587 / 1000) (114 / 1000) v v v\<rfloor>"
  note second = grayscale_value [of v v v, folded w_def]
  have S: "(299 * of_int v + 587 * of_int v + 114 * of_int v) / 1000 = (of_int v :: rat)" by simp
  have "grayscale_conversion_func v v v = Inr (w, w, w)" "v - 1 \<le> w" "w \<le> v"
    using second v0 v255 unfolding S by simp_all
  with g1 show ?thesis by blast
qed

text \<open>
  C7, amended, on \<open>(3, 2, 1)\<close>.
\<close>

theorem grayscale_twice_within_one_witness:
  "\<exists>v w. grayscale_conversion_func 3 2 1 = Inr (v, v, v)
     \<and> grayscale_conversion_func v v v = Inr (w, w, w) \<and> v - 1 \<le> w \<and> w \<le> v"
  using grayscale_twice_within_one [of 3 2 1] by simp

subsection \<open>C8: a buffer of width or height zero\<close>

text \<open>
  C8. When the width or the height is \<open>0\<close>, \<open>transform_pixels\<close> completes and returns
  the pixel map as it was given: the same pixels and the same list of accesses, so no
  read and no write has happened.
\<close>

theorem transform_pixels_zero_size:
  assumes "W = 0 \<or> H = 0"
  shows "transform_pixels pm W H f = Inr pm"
proof -
  have inner: "for_in xs (\<lambda>i. for_in [] (\<lambda>j. transform_pixel f (i, j))) s = Inr s" for xs and s :: pixel_map
    by (induction xs) simp_all
  from assms show ?thesis
  proof
    assume "W = 0"
    then show ?thesis by (simp add: transform_pixels_def range_int_def)
  next
    assume "H = 0"
    then show ?thesis by (simp add: transform_pixels_def range_int_def inner)
  qed
qed

text \<open>
  C8 with width \<open>0\<close> and with height \<open>0\<close>.
\<close>

theorem transform_pixels_zero_size_witness:
  "transform_pixels \<lparr>pixels = [(0, 0) \<mapsto> (1, 2, 3)], accesses = []\<rparr> 0 7 grayscale_conversion_func
     = Inr \<lparr>pixels = [(0, 0) \<mapsto> (1, 2, 3)], accesses = []\<rparr>
   \<and> transform_pixels \<lparr>pixels = [(0, 0) \<mapsto> (1, 2, 3)], accesses = []\<rparr> 7 0 grayscale_conversion_func
     = Inr \<lparr>pixels = [(0, 0) \<mapsto> (1, 2, 3)], accesses = []\<rparr>"
  using transform_pixels_zero_size [of 0 7] transform_pixels_zero_size [of 7 0] by simp

subsection \<open>C9: grayscale and rounding to nearest\<close>

text \<open>
  C9 says that each grayscale channel is the weighted sum rounded to the nearest
  integer. The source truncates: on \<open>(0, 0, 5)\<close> the sum is \<open>0.57\<close>, which rounds to
  \<open>1\<close>, and the result is \<open>(0, 0, 0)\<close>.
\<close>

theorem grayscale_round_counterexample:
  "grayscale_conversion_func 0 0 5 = Inr (0, 0, 0)
   \<and> round ((299 * 0 + 587 * 0 + 114 * 5) / 1000 :: rat) = 1"
proof -
  have "grayscale_conversion_func 0 0 5 = Inr (0, 0, 0)"
    by (rule grayscale_at [OF _ _ _ _ _ _ gray_0_0_5]) simp_all
  moreover have "round ((299 * 0 + 587 * 0 + 114 * 5) / 1000 :: rat) = 1"
    unfolding round_def by (rule floor_unique) simp_all
  ultimately show ?thesis by simp
qed

text \<open>
  C9, amended. For channels in \<open>[0, 255]\<close> the grayscale function returns three equal
  channels \<open>v\<close>, each the weighted sum \<open>S = (299 r + 587 g + 114 b) / 1000\<close> truncated,
  not rounded. Against the rounded sum (\<open>round\<close> takes a half upwards): \<open>v\<close> is
  \<open>round S\<close> when the fractional part of \<open>S\<close> is above \<open>0\<close> and below \<open>1/2\<close>, \<open>v\<close> is
  \<open>round S - 1\<close> when the fractional part is \<open>1/2\<close> or more, and \<open>v\<close> is \<open>S\<close> or
  \<open>S - 1\<close> when \<open>S\<close> is an integer.
\<close>

theorem grayscale_truncates_not_rounds:
  assumes "0 \<le> r \<and> r \<le> 255" and "0 \<le> g \<and> g \<le> 255" and "0 \<le> b \<and> b \<le> 255"
  shows "\<exists>v. grayscale_conversion_func r g b = Inr (v, v, v)
     \<and> (0 < frac ((299 * of_int r + 587 * of_int g + 114 * of_int b) / 1000 :: rat)
          \<and> frac ((299 * of_int r + 587 * of_int g + 114 * of_int b) / 1000 :: rat) < 1 / 2
        \<longrightarrow> v = round ((299 * of_int r + 587 * of_int g + 114 * of_int b) / 1000 :: rat))
     \<and> (1 / 2 \<le> frac ((299 * of_int r + 587 * of_int g + 114 * of_int b) / 1000 :: rat)
        \<longrightarrow> v = round ((299 * of_int r + 587 * of_int g + 114 * of_int b) / 1000 :: rat) - 1)
     \<and> (frac ((299 * of_int r + 587 * of_int g + 114 * of_int b) / 1000 :: rat) = 0
        \<longrightarrow> v = round ((299 * of_int r + 587 * of_int g + 114 * of_int b) / 1000 :: rat)
          \<or> v = round ((299 * of_int r + 587 * of_int g + 114 * of_int b) / 1000 :: rat) - 1)"
proof -
  from assms have "0 \<le> r" "r \<le> 255" "0 \<le> g" "g \<le> 255" "0 \<le> b" "b \<le> 255" by simp_all
  note gv = grayscale_value [OF this]
  from truncation_against_round [OF gv(3) gv(4)] gv(1) show ?thesis by blast
qed

text \<open>
  C9, amended, on \<open>(200, 150, 101)\<close>, where the sum is \<open>159.364\<close>, and on \<open>(0, 0, 6)\<close>,
  where the sum \<open>0.684\<close> rounds to \<open>1\<close>.
\<close>

theorem grayscale_truncates_not_rounds_witness:
  "grayscale_conversion_func 200 150 101 = Inr (159, 159, 159)
   \<and> grayscale_conversion_func 0 0 6 = Inr (0, 0, 0)"
proof -
  let ?S1 = "(299 * of_int 200 + 587 * of_int 150 + 114 * of_int 101) / 1000 :: rat"
  let ?S2 = "(299 * of_int 0 + 587 * of_int 0 + 114 * of_int 6) / 1000 :: rat"
  have fl: "\<lfloor>?S1\<rfloor> = 159" "\<lfloor>?S2\<rfloor> = 0" by (rule floor_unique; simp)+
  have fr: "0 < frac ?S1 \<and> frac ?S1 < 1 / 2" "1 / 2 \<le> frac ?S2"
    unfolding frac_def fl by simp_all
  have rd: "round ?S1 = 159" "round ?S2 = 1"
    unfolding round_def by (rule floor_unique; simp)+
  have "grayscale_conversion_func 200 150 101 = Inr (159, 159, 159)"
    using grayscale_truncates_not_rounds [of 200 150 101] fr(1) unfolding rd by auto
  moreover have "grayscale_conversion_func 0 0 6 = Inr (0, 0, 0)"
    using grayscale_truncates_not_rounds [of 0 0 6] fr(2) unfolding rd by auto
  ultimately show ?thesis by simp
qed

subsection \<open>C10: warmer and cooler undo each other\<close>

text \<open>
  C10. On every triple of ints, cooler after warmer and warmer after cooler return the
  triple they started from.
\<close>

theorem warmer_cooler_inverse:
  "then_do (warmer_conversion_func r g b) (\<lambda>(r', g', b'). cooler_conversion_func r' g' b') = Inr (r, g, b)
   \<and> then_do (cooler_conversion_func r g b) (\<lambda>(r', g', b'). warmer_conversion_func r' g' b') = Inr (r, g, b)"
  by (simp add: warmer_conversion_func_def cooler_conversion_func_def)

end
